theory Spec2Isabelle
  imports Complex_Main "HOL-Library.Sublist"
begin

section \<open>Storage booking backend: data model\<close>

text \<open>
  The backend keeps two tables, \<open>storage_units\<close> and \<open>bookings\<close> (Sequelize models
  \<open>StorageUnit\<close> and \<open>Booking\<close>); a row carries the columns the handlers decide on.
  A JavaScript \<open>Date\<close> is its number of milliseconds since the epoch, an \<open>int\<close>; the
  route handlers only ever see valid dates, since the validation code rejects an
  invalid one before any comparison. A price is a \<open>DECIMAL(10, 2)\<close> value; the numbers
  JavaScript computes from it are modelled as exact rationals: such a price times the
  at most 366 days that \<open>validateBookingData\<close> admits is far below the size where a
  double is off by half a cent. The clock (\<open>new Date()\<close>) is an explicit argument
  \<open>now\<close>, read once per request, and the server's time zone an explicit argument
  too. Failures of the database itself (a lost connection, a column overflow) are
  outside the model.
\<close>

type_synonym date = int

datatype status = Upcoming | Active | Completed | Cancelled

text \<open>A value of a \<open>DECIMAL(10, 2)\<close> column, which the database hands over as a decimal
  string with two fraction digits: a whole number of hundredths. \<open>Number\<close> is the
  number JavaScript makes of it in arithmetic.\<close>

datatype decimal2 = Hundredths int

fun Number :: "decimal2 \<Rightarrow> rat" where
  "Number (Hundredths c) = of_int c / 100"

record unit_row =
  unit_id :: nat
  unit_name :: string
  pricePerDay :: decimal2
  isAvailable :: bool

record booking =
  booking_id :: nat
  userName :: string
  unitId :: nat
  startDate :: date
  endDate :: date
  totalCost :: rat
  status :: status

record store =
  units :: "unit_row list"
  bookings :: "booking list"
  nextId :: nat

text \<open>The outcomes of the handlers that are not a success, named as in the specification,
  with the HTTP status the handler answers with.\<close>

datatype error =
    BadRequest          \<comment> \<open>400, a query parameter is missing or malformed\<close>
  | NotFound            \<comment> \<open>404\<close>
  | Unavailable         \<comment> \<open>400, the unit is not available for booking\<close>
  | Conflict            \<comment> \<open>409\<close>
  | ValidationError     \<comment> \<open>400, \<open>SequelizeValidationError\<close> through the error handler\<close>
  | AlreadyCancelled    \<comment> \<open>400\<close>
  | InvalidTransition   \<comment> \<open>400, a completed booking cannot be cancelled\<close>

section \<open>Date overlap\<close>

text \<open>The \<open>Op.or\<close> part of the \<open>where\<close> clause of \<open>checkBookingConflict\<close>
  (routes/bookings.js), for the candidate range \<open>[s, e]\<close> and a row with dates
  \<open>bs\<close>, \<open>be\<close>. SQL's \<open>BETWEEN\<close> includes both ends.\<close>

definition conflictClause :: "date \<Rightarrow> date \<Rightarrow> date \<Rightarrow> date \<Rightarrow> bool" where
  "conflictClause s e bs be \<longleftrightarrow>
     (s \<le> bs \<and> bs \<le> e) \<or>
     (s \<le> be \<and> be \<le> e) \<or>
     (bs \<ge> s \<and> be \<le> e) \<or>
     (bs \<le> s \<and> be \<ge> e)"

text \<open>The \<open>Op.or\<close> part of the query of \<open>GET /:id/availability\<close> (routes/units.js).\<close>

definition availabilityClause :: "date \<Rightarrow> date \<Rightarrow> date \<Rightarrow> date \<Rightarrow> bool" where
  "availabilityClause s e bs be \<longleftrightarrow>
     (s \<le> bs \<and> bs \<le> e) \<or>
     (s \<le> be \<and> be \<le> e) \<or>
     (bs \<le> s \<and> be \<ge> e)"

text \<open>The specification's symmetric overlap predicate on two inclusive ranges.\<close>

definition overlaps :: "date \<Rightarrow> date \<Rightarrow> date \<Rightarrow> date \<Rightarrow> bool" where
  "overlaps s1 e1 s2 e2 \<longleftrightarrow> s1 \<le> e2 \<and> s2 \<le> e1"

section \<open>Status resolver\<close>

text \<open>\<open>determineBookingStatus\<close> (routes/bookings.js); the clock it reads is \<open>now\<close>.\<close>

definition determineBookingStatus :: "date \<Rightarrow> date \<Rightarrow> date \<Rightarrow> status" where
  "determineBookingStatus s e now =
     (if now < s then Upcoming
      else if now > e then Completed
      else Active)"

section \<open>Local time\<close>

text \<open>
  The repository does not fix the server's time zone, so it is a parameter. As in
  ECMAScript, a zone gives the offset of local time from UTC at an instant
  (\<open>LocalTZA(t, true)\<close>) and the offset with which a local time is read
  (\<open>LocalTZA(t, false)\<close>, which around a change of offset is the offset before the
  change). \<open>LocalTime\<close> and \<open>UTC\<close> are ECMAScript's conversions; a local time is the
  number that counts its year, month, day and time of day as if they were UTC.
\<close>

record zone =
  offsetAt :: "date \<Rightarrow> int"
  offsetOfLocal :: "int \<Rightarrow> int"

definition LocalTime :: "zone \<Rightarrow> date \<Rightarrow> int" where
  "LocalTime z t = t + offsetAt z t"

definition UTC :: "zone \<Rightarrow> int \<Rightarrow> date" where
  "UTC z tlocal = tlocal - offsetOfLocal z tlocal"

definition fixedZone :: "int \<Rightarrow> zone" where
  "fixedZone off = \<lparr>offsetAt = (\<lambda>t. off), offsetOfLocal = (\<lambda>t. off)\<rparr>"

section \<open>Cost\<close>

text \<open>JavaScript's \<open>Math.round\<close>: the nearest integer, a tie going up.\<close>

definition Math_round :: "rat \<Rightarrow> int" where
  "Math_round x = \<lfloor>x + 1 / 2\<rfloor>"

definition msPerDay :: int where
  "msPerDay = 86400000"

text \<open>
  The functions of the date-fns library (version 2 and later) behind
  \<open>differenceInDays\<close>, which the repository imports. They work on the local fields of
  their dates. \<open>compareLocalAsc\<close> compares year, month, day, hours, minutes, seconds
  and milliseconds in this order, which is the order of the local times.
  \<open>startOfDay\<close> is \<open>setHours(0, 0, 0, 0)\<close>. \<open>differenceInCalendarDays\<close> subtracts the
  local times of the two starts of day and rounds the quotient by the length of a day.
  \<open>differenceInDays\<close> counts the calendar days, moves the later date back by that many
  days with \<open>setDate\<close> (the local time of day stays, the result is read as a local
  time), and takes one day off when the date so moved falls on the other side of the
  earlier date: the last day was not full.
\<close>

definition compareLocalAsc :: "zone \<Rightarrow> date \<Rightarrow> date \<Rightarrow> int" where
  "compareLocalAsc z dateLeft dateRight = sgn (LocalTime z dateLeft - LocalTime z dateRight)"

definition startOfDay :: "zone \<Rightarrow> date \<Rightarrow> date" where
  "startOfDay z t = UTC z (LocalTime z t div msPerDay * msPerDay)"

definition differenceInCalendarDays :: "zone \<Rightarrow> date \<Rightarrow> date \<Rightarrow> int" where
  "differenceInCalendarDays z laterDate earlierDate =
     (let timestampLeft = LocalTime z (startOfDay z laterDate);
          timestampRight = LocalTime z (startOfDay z earlierDate)
      in Math_round (of_int (timestampLeft - timestampRight) / of_int msPerDay))"

definition differenceInDays :: "zone \<Rightarrow> date \<Rightarrow> date \<Rightarrow> int" where
  "differenceInDays z laterDate earlierDate =
     (let sign = compareLocalAsc z laterDate earlierDate;
          difference = \<bar>differenceInCalendarDays z laterDate earlierDate\<bar>;
          movedDate = UTC z (LocalTime z laterDate - sign * difference * msPerDay);
          isLastDayNotFull = (if compareLocalAsc z movedDate earlierDate = - sign then 1 else 0)
      in sign * (difference - isLastDayNotFull))"

text \<open>\<open>calculateTotalCost\<close> (routes/bookings.js), on the price as the unit's row holds
  it.\<close>

definition calculateTotalCost :: "zone \<Rightarrow> date \<Rightarrow> date \<Rightarrow> decimal2 \<Rightarrow> rat" where
  "calculateTotalCost z s e price =
     (let days = differenceInDays z e s + 1
      in of_int (Math_round (of_int days * Number price * 100)) / 100)"

text \<open>The specification's words for the same quantity: the whole days from \<open>s\<close> to
  \<open>e\<close>, and a rational rounded to two decimal places, half a cent going up.\<close>

definition wholeDays :: "date \<Rightarrow> date \<Rightarrow> int" where
  "wholeDays s e = (e - s) div msPerDay"

definition round2dp :: "rat \<Rightarrow> rat" where
  "round2dp x = of_int \<lfloor>x * 100 + 1 / 2\<rfloor> / 100"

section \<open>Queries on the store\<close>

text \<open>\<open>findByPk\<close> of the two models. A primary key names at most one row; the first
  row with the key is the row.\<close>

definition StorageUnit_findByPk :: "nat \<Rightarrow> store \<Rightarrow> unit_row option" where
  "StorageUnit_findByPk k st = find (\<lambda>u. unit_id u = k) (units st)"

definition Booking_findByPk :: "nat \<Rightarrow> store \<Rightarrow> booking option" where
  "Booking_findByPk k st = find (\<lambda>b. booking_id b = k) (bookings st)"

text \<open>\<open>checkBookingConflict\<close> (routes/bookings.js). \<open>excludeBookingId\<close> is optional, and
  the source tests it for truthiness, so that \<open>0\<close> excludes nothing.\<close>

definition checkBookingConflict :: "nat \<Rightarrow> date \<Rightarrow> date \<Rightarrow> nat option \<Rightarrow> store \<Rightarrow> bool" where
  "checkBookingConflict uid s e excludeBookingId st =
     (let conflictingBookings =
            filter (\<lambda>b. unitId b = uid \<and>
                        (status b = Upcoming \<or> status b = Active) \<and>
                        conflictClause s e (startDate b) (endDate b) \<and>
                        (case excludeBookingId of
                           None \<Rightarrow> True
                         | Some x \<Rightarrow> x = 0 \<or> booking_id b \<noteq> x))
                   (bookings st)
      in length conflictingBookings > 0)"

section \<open>Booking admission\<close>

text \<open>
  The validators of the \<open>Booking\<close> model (models/Booking.js), which Sequelize runs on
  every attribute when \<open>Booking.create\<close> saves a new row: \<open>notEmpty\<close> and \<open>len [1, 255]\<close>
  on \<open>userName\<close>, \<open>isAfterToday\<close> on \<open>startDate\<close> (it throws when the value is earlier
  than \<open>new Date()\<close>), \<open>isAfterStartDate\<close> on \<open>endDate\<close> and \<open>min 0\<close> on
  \<open>totalCost\<close>. User names are taken to be ASCII.
\<close>

definition whitespace :: "char \<Rightarrow> bool" where
  "whitespace c \<longleftrightarrow> c \<in> {CHR '' '', CHR 0x09, CHR 0x0A, CHR 0x0B, CHR 0x0C, CHR 0x0D}"

definition notEmpty :: "string \<Rightarrow> bool" where
  "notEmpty str \<longleftrightarrow> \<not> list_all whitespace str"

definition Booking_validate :: "date \<Rightarrow> booking \<Rightarrow> bool" where
  "Booking_validate now b \<longleftrightarrow>
     notEmpty (userName b) \<and>
     1 \<le> length (userName b) \<and> length (userName b) \<le> 255 \<and>
     \<not> startDate b < now \<and>
     \<not> endDate b \<le> startDate b \<and>
     0 \<le> totalCost b"

text \<open>\<open>Booking.create\<close>: the row gets the next value of the id sequence. A failed
  validation throws before any row is written; the handler's \<open>catch\<close> passes the error
  on to the error handler, which answers 400.\<close>

definition Booking_create ::
  "date \<Rightarrow> string \<Rightarrow> nat \<Rightarrow> date \<Rightarrow> date \<Rightarrow> rat \<Rightarrow> status \<Rightarrow> store \<Rightarrow> (error + booking) \<times> store" where
  "Booking_create now un uid s e cost stat st =
     (let b = \<lparr>booking_id = nextId st, userName = un, unitId = uid, startDate = s,
                endDate = e, totalCost = cost, status = stat\<rparr>
      in if \<not> Booking_validate now b then (Inl ValidationError, st)
         else (Inr b, st\<lparr>bookings := bookings st @ [b], nextId := Suc (nextId st)\<rparr>))"

text \<open>The handler of \<open>POST /api/bookings\<close> (routes/bookings.js), on the data that
  \<open>validateBookingData\<close> hands it, on a server in the zone \<open>z\<close>.\<close>

definition createBooking ::
  "zone \<Rightarrow> string \<Rightarrow> nat \<Rightarrow> date \<Rightarrow> date \<Rightarrow> date \<Rightarrow> store \<Rightarrow> (error + booking) \<times> store" where
  "createBooking z un uid s e now st =
     (case StorageUnit_findByPk uid st of
        None \<Rightarrow> (Inl NotFound, st)
      | Some storageUnit \<Rightarrow>
          if \<not> isAvailable storageUnit then (Inl Unavailable, st)
          else if checkBookingConflict uid s e None st then (Inl Conflict, st)
          else
            let cost = calculateTotalCost z s e (pricePerDay storageUnit);
                stat = determineBookingStatus s e now
            in Booking_create now un uid s e cost stat st)"

section \<open>Reading bookings\<close>

text \<open>\<open>booking.update({ status })\<close>: an \<open>UPDATE\<close> of the row with the instance's primary
  key. Sequelize validates the updated attribute only.\<close>

definition Booking_update_status :: "nat \<Rightarrow> status \<Rightarrow> store \<Rightarrow> store" where
  "Booking_update_status k s st =
     st\<lparr>bookings := map (\<lambda>b. if booking_id b = k then b\<lparr>status := s\<rparr> else b) (bookings st)\<rparr>"

text \<open>The body of the \<open>bookings.map\<close> callback of \<open>GET /api/bookings\<close>: the status of
  a fetched row is resolved again and written back when it changed. The result is the
  reloaded instance and the store.\<close>

definition refreshStatus :: "date \<Rightarrow> booking \<Rightarrow> store \<Rightarrow> booking \<times> store" where
  "refreshStatus now b st =
     (let currentStatus = status b;
          newStatus = (if currentStatus \<noteq> Cancelled
                       then determineBookingStatus (startDate b) (endDate b) now
                       else currentStatus)
      in if newStatus \<noteq> currentStatus
         then (b\<lparr>status := newStatus\<rparr>, Booking_update_status (booking_id b) newStatus st)
         else (b, st))"

fun refreshAll :: "date \<Rightarrow> booking list \<Rightarrow> store \<Rightarrow> booking list \<times> store" where
  "refreshAll now [] st = ([], st)"
| "refreshAll now (b # bs) st =
     (let (b', st') = refreshStatus now b st;
          (bs', st'') = refreshAll now bs st'
      in (b' # bs', st''))"

text \<open>
  The database's \<open>LIKE\<close> on a pattern and a text: \<open>%\<close> stands for any run of
  characters, \<open>_\<close> for any one character, and a backslash makes the character after it
  stand for itself. \<open>ILIKE\<close> is \<open>LIKE\<close> on the lower-cased pattern and text (ASCII
  letters here). A pattern that ends in a lone backslash matches nothing in the model;
  the handler's patterns end in \<open>%\<close>.
\<close>

fun like_match :: "string \<Rightarrow> string \<Rightarrow> bool" where
  "like_match [] cs = (cs = [])"
| "like_match (p # ps) [] = (p = CHR ''%'' \<and> like_match ps [])"
| "like_match (p # ps) (c # cs) =
     (if p = CHR ''%'' then like_match ps (c # cs) \<or> like_match (p # ps) cs
      else if p = CHR ''_'' then like_match ps cs
      else if p = CHR 0x5C then
        (case ps of [] \<Rightarrow> False | q # qs \<Rightarrow> q = c \<and> like_match qs cs)
      else p = c \<and> like_match ps cs)"

definition wildcard :: "char \<Rightarrow> bool" where
  "wildcard c \<longleftrightarrow> c = CHR ''%'' \<or> c = CHR ''_'' \<or> c = CHR 0x5C"

definition lower_char :: "char \<Rightarrow> char" where
  "lower_char c =
     (let n = (of_char c :: nat)
      in if 65 \<le> n \<and> n \<le> 90 then char_of (n + 32) else c)"

definition iLike :: "string \<Rightarrow> string \<Rightarrow> bool" where
  "iLike txt pattern = like_match (map lower_char pattern) (map lower_char txt)"

text \<open>The plain reading of a case-insensitive partial match: the query occurs in the
  text as a run of consecutive characters, letter case aside.\<close>

definition containsIgnoreCase :: "string \<Rightarrow> string \<Rightarrow> bool" where
  "containsIgnoreCase query txt \<longleftrightarrow> sublist (map lower_char query) (map lower_char txt)"

text \<open>The handler of \<open>GET /api/bookings\<close> on the user name that \<open>validateUserName\<close>
  hands it (trimmed and not empty) and the optional status filter (a string that is
  not a status is ignored by the handler, as no filter is). Rows are kept in insertion
  order, so \<open>createdAt DESC\<close> is that order reversed. The result is the list of
  reloaded rows.\<close>

definition listBookingsForUser ::
  "string \<Rightarrow> status option \<Rightarrow> date \<Rightarrow> store \<Rightarrow> booking list \<times> store" where
  "listBookingsForUser name statusFilter now st =
     (let rows = rev (filter (\<lambda>b. iLike (userName b) (''%'' @ name @ ''%'') \<and>
                                    (case statusFilter of
                                       None \<Rightarrow> True
                                     | Some f \<Rightarrow> status b = f))
                             (bookings st))
      in refreshAll now rows st)"

text \<open>The handler of \<open>GET /api/bookings/:id\<close>.\<close>

definition getBooking :: "nat \<Rightarrow> date \<Rightarrow> store \<Rightarrow> (error + booking) \<times> store" where
  "getBooking bookingId now st =
     (case Booking_findByPk bookingId st of
        None \<Rightarrow> (Inl NotFound, st)
      | Some b \<Rightarrow>
          let currentStatus = status b
          in if currentStatus \<noteq> Cancelled then
               (let newStatus = determineBookingStatus (startDate b) (endDate b) now
                in if newStatus \<noteq> currentStatus
                   then (Inr (b\<lparr>status := newStatus\<rparr>),
                         Booking_update_status (booking_id b) newStatus st)
                   else (Inr b, st))
             else (Inr b, st))"

section \<open>Cancellation\<close>

text \<open>The handler of \<open>PUT /api/bookings/:id/cancel\<close>. The response reads
  \<open>booking.status\<close> for \<open>previousStatus\<close> after the update, when it is already
  \<open>cancelled\<close>.\<close>

record cancel_response =
  bookingId :: nat
  previousStatus :: status
  newStatus :: status

definition cancelBooking :: "nat \<Rightarrow> store \<Rightarrow> (error + cancel_response) \<times> store" where
  "cancelBooking k st =
     (case Booking_findByPk k st of
        None \<Rightarrow> (Inl NotFound, st)
      | Some b \<Rightarrow>
          if status b = Cancelled then (Inl AlreadyCancelled, st)
          else if status b = Completed then (Inl InvalidTransition, st)
          else (Inr \<lparr>bookingId = k, previousStatus = Cancelled, newStatus = Cancelled\<rparr>,
                Booking_update_status k Cancelled st))"

section \<open>Availability\<close>

text \<open>The handler of \<open>GET /api/units/:id/availability\<close> (routes/units.js). A query
  parameter that is missing or does not parse as a date is \<open>None\<close>.\<close>

record availability =
  available :: bool
  conflicts :: "booking list"

definition checkAvailability ::
  "nat \<Rightarrow> date option \<Rightarrow> date option \<Rightarrow> store \<Rightarrow> error + availability" where
  "checkAvailability uid startParam endParam st =
     (case (startParam, endParam) of
        (Some s, Some e) \<Rightarrow>
          if s \<ge> e then Inl BadRequest
          else
            (case StorageUnit_findByPk uid st of
               None \<Rightarrow> Inl NotFound
             | Some u \<Rightarrow>
                 let conflictingBookings =
                       filter (\<lambda>b. unitId b = uid \<and>
                                   (status b = Upcoming \<or> status b = Active) \<and>
                                   availabilityClause s e (startDate b) (endDate b))
                              (bookings st);
                     isAvail = (isAvailable u \<and> length conflictingBookings = 0)
                 in Inr \<lparr>available = isAvail, conflicts = conflictingBookings\<rparr>)
      | _ \<Rightarrow> Inl BadRequest)"

section \<open>Admission as the event loop runs it\<close>

text \<open>
  The handler of \<open>POST /api/bookings\<close> is an \<open>async\<close> function: at each \<open>await\<close> it
  gives the event loop back, and another request's handler may run before it goes on.
  Its database calls are \<open>StorageUnit.findByPk\<close>, the \<open>Booking.findAll\<close> of
  \<open>checkBookingConflict\<close> and \<open>Booking.create\<close>; none of them is inside a
  transaction. An admission under way is at one of these points.
\<close>

record request =
  rq_userName :: string
  rq_unitId :: nat
  rq_startDate :: date
  rq_endDate :: date

datatype admission =
    Received
  | UnitLoaded unit_row
  | ConflictChecked unit_row
  | Responded "error + booking"

fun admission_step ::
  "zone \<Rightarrow> request \<Rightarrow> date \<Rightarrow> admission \<Rightarrow> store \<Rightarrow> admission \<times> store" where
  "admission_step z r now Received st =
     (case StorageUnit_findByPk (rq_unitId r) st of
        None \<Rightarrow> (Responded (Inl NotFound), st)
      | Some storageUnit \<Rightarrow>
          if \<not> isAvailable storageUnit then (Responded (Inl Unavailable), st)
          else (UnitLoaded storageUnit, st))"
| "admission_step z r now (UnitLoaded storageUnit) st =
     (if checkBookingConflict (rq_unitId r) (rq_startDate r) (rq_endDate r) None st
      then (Responded (Inl Conflict), st)
      else (ConflictChecked storageUnit, st))"
| "admission_step z r now (ConflictChecked storageUnit) st =
     (let cost = calculateTotalCost z (rq_startDate r) (rq_endDate r) (pricePerDay storageUnit);
          stat = determineBookingStatus (rq_startDate r) (rq_endDate r) now;
          (res, st') = Booking_create now (rq_userName r) (rq_unitId r)
                         (rq_startDate r) (rq_endDate r) cost stat st
      in (Responded res, st'))"
| "admission_step z r now (Responded res) st = (Responded res, st)"

text \<open>Two admissions under way; the schedule says whose handler runs next
  (\<open>False\<close> the first request's, \<open>True\<close> the second's).\<close>

fun interleave ::
  "zone \<Rightarrow> bool list \<Rightarrow> date \<Rightarrow> request \<Rightarrow> request \<Rightarrow> admission \<times> admission \<times> store \<Rightarrow>
   admission \<times> admission \<times> store" where
  "interleave z [] now r1 r2 c = c"
| "interleave z (w # ws) now r1 r2 (a1, a2, st) =
     (if w
      then (let (a2', st') = admission_step z r2 now a2 st
            in interleave z ws now r1 r2 (a1, a2', st'))
      else (let (a1', st') = admission_step z r1 now a1 st
            in interleave z ws now r1 r2 (a1', a2, st')))"

section \<open>Well-formed stores and sample data\<close>

text \<open>What the database and the model validators keep true of the \<open>bookings\<close> table:
  the primary key is unique and below the sequence's next value, and every row ends
  after it starts.\<close>

definition store_wf :: "store \<Rightarrow> bool" where
  "store_wf st \<longleftrightarrow>
     distinct (map booking_id (bookings st)) \<and>
     (\<forall>b \<in> set (bookings st). booking_id b < nextId st) \<and>
     (\<forall>b \<in> set (bookings st). startDate b < endDate b)"

text \<open>Two of the units that \<open>seedDatabase\<close> (server.js) creates, and dates in March
  and November 2024 as milliseconds since the epoch (midnight UTC).\<close>

definition unitB2 :: unit_row where
  "unitB2 = \<lparr>unit_id = 2, unit_name = ''Medium Storage Unit B2'', pricePerDay = Hundredths 2500,
              isAvailable = True\<rparr>"

definition unitG9 :: unit_row where
  "unitG9 = \<lparr>unit_id = 9, unit_name = ''Premium Unit G9'', pricePerDay = Hundredths 4500,
              isAvailable = False\<rparr>"

definition mar01 :: date where "mar01 = 1709251200000"
definition mar10 :: date where "mar10 = 1710028800000"
definition mar15 :: date where "mar15 = 1710460800000"
definition mar20 :: date where "mar20 = 1710892800000"
definition mar25 :: date where "mar25 = 1711324800000"
definition nov01 :: date where "nov01 = 1730419200000"
definition nov05 :: date where "nov05 = 1730764800000"

text \<open>Two zones: UTC, and New York by its rules of 2024, four hours behind UTC from
  10 March 07:00 UTC to 3 November 06:00 UTC and five hours behind otherwise. A local
  time is read with the earlier offset up to 03:00 on 10 March and with the summer
  offset from then up to 02:00 on 3 November.\<close>

definition utc :: zone where
  "utc = fixedZone 0"

definition newYork2024 :: zone where
  "newYork2024 =
     \<lparr>offsetAt = (\<lambda>t. if 1710054000000 \<le> t \<and> t < 1730613600000
                         then - 14400000 else - 18000000),
      offsetOfLocal = (\<lambda>t. if 1710039600000 \<le> t \<and> t < 1730599200000
                              then - 14400000 else - 18000000)\<rparr>"

definition store_seed :: store where
  "store_seed = \<lparr>units = [unitB2, unitG9], bookings = [], nextId = 1\<rparr>"

definition bookingTest :: booking where
  "bookingTest = \<lparr>booking_id = 1, userName = ''Test User'', unitId = 2,
                   startDate = mar01, endDate = mar15, totalCost = 375, status = Upcoming\<rparr>"

definition bookingDone :: booking where
  "bookingDone = \<lparr>booking_id = 2, userName = ''Ann'', unitId = 2,
                   startDate = mar15 + 1, endDate = mar20, totalCost = 125, status = Completed\<rparr>"

definition bookingGone :: booking where
  "bookingGone = \<lparr>booking_id = 3, userName = ''Bob'', unitId = 2,
                   startDate = mar20 + 1, endDate = mar25, totalCost = 125, status = Cancelled\<rparr>"

definition store_booked :: store where
  "store_booked = \<lparr>units = [unitB2, unitG9],
                    bookings = [bookingTest, bookingDone, bookingGone], nextId = 4\<rparr>"

section \<open>Properties\<close>

text \<open>
  C1. For inclusive ranges \<open>[s1, e1]\<close> (candidate) and \<open>[s2, e2]\<close> (existing booking),
  each with start \<open>\<le>\<close> end, the four-clause disjunction of the conflict checker holds
  exactly when \<open>s1 \<le> e2\<close> and \<open>s2 \<le> e1\<close>, and so does the three-clause disjunction
  of the availability endpoint.
\<close>

theorem overlap_clauses_symmetric:
  assumes "s1 \<le> e1" and "s2 \<le> e2"
  shows "(conflictClause s1 e1 s2 e2 \<longleftrightarrow> overlaps s1 e1 s2 e2) \<and>
         (availabilityClause s1 e1 s2 e2 \<longleftrightarrow> overlaps s1 e1 s2 e2)"
proof
  show "conflictClause s1 e1 s2 e2 \<longleftrightarrow> overlaps s1 e1 s2 e2"
    using assms unfolding conflictClause_def overlaps_def by linarith
  show "availabilityClause s1 e1 s2 e2 \<longleftrightarrow> overlaps s1 e1 s2 e2"
    using assms unfolding availabilityClause_def overlaps_def by linarith
qed

theorem overlap_clauses_symmetric_witness:
  "(1 :: int) \<le> 5 \<and> (5 :: int) \<le> 9 \<and>
   conflictClause 1 5 5 9 \<and> overlaps 1 5 5 9 \<and> availabilityClause 1 5 5 9 \<and>
   \<not> conflictClause 1 5 6 9 \<and> \<not> overlaps 1 5 6 9 \<and> \<not> availabilityClause 1 5 6 9"
  using overlap_clauses_symmetric [of 1 5 5 9] overlap_clauses_symmetric [of 1 5 6 9]
  by (simp add: overlaps_def)

subsection \<open>Cost\<close>

text \<open>In a zone with a fixed offset from UTC, \<open>differenceInDays\<close> is the number of whole
  days from the earlier date to the later one.\<close>

lemma Math_round_of_int: "Math_round (of_int k) = k"
  unfolding Math_round_def by linarith

lemma div_diff_cases:
  assumes "0 < (D :: int)"
  shows "(x - y) div D =
           x div D - y div D - (if x - y < (x div D - y div D) * D then 1 else 0)"
proof -
  define a b r q where "a = x div D" and "b = y div D" and "r = x mod D" and "q = y mod D"
  have x: "x = a * D + r" and y: "y = b * D + q"
    by (simp_all add: a_def b_def r_def q_def)
  have r: "0 \<le> r" "r < D" and q: "0 \<le> q" "q < D"
    using assms by (simp_all add: r_def q_def)
  have d: "x - y = (a - b) * D + (r - q)"
    by (simp add: x y algebra_simps)
  show ?thesis
  proof (cases "r < q")
    case True
    have "x - y = D * (a - b - 1) + (D + r - q)"
      by (simp add: d algebra_simps)
    moreover have "0 \<le> D + r - q" "D + r - q < D"
      using True r q by simp_all
    ultimately have "(x - y) div D = a - b - 1"
      by (rule int_div_pos_eq)
    moreover have "x - y < (a - b) * D"
      using True by (simp add: d)
    ultimately show ?thesis by (simp add: a_def b_def)
  next
    case False
    have "x - y = D * (a - b) + (r - q)"
      by (simp add: d algebra_simps)
    moreover have "0 \<le> r - q" "r - q < D"
      using False r q by simp_all
    ultimately have "(x - y) div D = a - b"
      by (rule int_div_pos_eq)
    moreover have "\<not> x - y < (a - b) * D"
      using False by (simp add: d)
    ultimately show ?thesis by (simp add: a_def b_def)
  qed
qed

lemma fixedZone_times [simp]:
  "LocalTime (fixedZone off) t = t + off" "UTC (fixedZone off) t = t - off"
  by (simp_all add: LocalTime_def UTC_def fixedZone_def)

lemma differenceInCalendarDays_fixedZone:
  "differenceInCalendarDays (fixedZone off) e s = (e + off) div msPerDay - (s + off) div msPerDay"
proof -
  define a b where "a = (e + off) div msPerDay" and "b = (s + off) div msPerDay"
  have "a * msPerDay - off + off - (b * msPerDay - off + off) = (a - b) * msPerDay"
    by (simp add: algebra_simps)
  moreover have "rat_of_int ((a - b) * msPerDay) / rat_of_int msPerDay = rat_of_int (a - b)"
    by (simp add: msPerDay_def)
  ultimately have "Math_round (rat_of_int (a * msPerDay - off + off - (b * msPerDay - off + off))
               / rat_of_int msPerDay) = a - b"
    by (simp only: Math_round_of_int)
  then show ?thesis
    unfolding differenceInCalendarDays_def startOfDay_def Let_def fixedZone_times a_def b_def .
qed

lemma differenceInDays_fixedZone:
  assumes "s \<le> e"
  shows "differenceInDays (fixedZone off) e s = wholeDays s e"
proof -
  define c where "c = (e + off) div msPerDay - (s + off) div msPerDay"
  have D: "0 < msPerDay" by (simp add: msPerDay_def)
  have c0: "0 \<le> c"
    unfolding c_def using assms D by (simp add: zdiv_mono1)
  have w: "wholeDays s e = c - (if e - s < c * msPerDay then 1 else 0)"
    using div_diff_cases [OF D, of "e + off" "s + off"] by (simp add: wholeDays_def c_def)
  show ?thesis
  proof (cases "s = e")
    case True
    then show ?thesis
      by (simp add: differenceInDays_def compareLocalAsc_def wholeDays_def Let_def)
  next
    case False
    then have lt: "s < e" using assms by simp
    then have sg: "sgn (e - s) = 1" by simp
    have "differenceInDays (fixedZone off) e s = c - (if e - s < c * msPerDay then 1 else 0)"
      using c0 lt
      by (simp add: differenceInDays_def compareLocalAsc_def Let_def
          differenceInCalendarDays_fixedZone c_def [symmetric] sgn_if)
    then show ?thesis by (simp add: w)
  qed
qed


text \<open>Between two dates at the same time of day, as two dates without a time are, the
  whole days are the difference of the calendar days.\<close>

lemma wholeDays_calendar:
  assumes "s mod msPerDay = e mod msPerDay"
  shows "wholeDays s e = e div msPerDay - s div msPerDay"
proof -
  define r where "r = e mod msPerDay"
  have e: "e div msPerDay * msPerDay + r = e"
    unfolding r_def by (rule div_mult_mod_eq)
  have s: "s div msPerDay * msPerDay + r = s"
    unfolding r_def assms [symmetric] by (rule div_mult_mod_eq)
  have "e - s = (e div msPerDay * msPerDay + r) - (s div msPerDay * msPerDay + r)"
    by (simp only: e s)
  also have "\<dots> = (e div msPerDay - s div msPerDay) * msPerDay"
    by (simp add: algebra_simps)
  finally have "(e - s) div msPerDay = ((e div msPerDay - s div msPerDay) * msPerDay) div msPerDay"
    by simp
  also have "\<dots> = e div msPerDay - s div msPerDay"
    by (simp add: msPerDay_def)
  finally show ?thesis by (simp add: wholeDays_def)
qed

text \<open>In such a zone the cost is the whole days from start to end, plus one, times the
  price, to the cent: the rounding changes nothing. From 2024-03-01 to 2024-03-15 at
  25.00 a day that is 15 days and 375.00, on a server in UTC and also, for the two
  local midnights, on a server in New York.\<close>

lemma calculateTotalCost_fixedZone:
  assumes "s \<le> e"
  shows "calculateTotalCost (fixedZone off) s e price = of_int (wholeDays s e + 1) * Number price"
    and "calculateTotalCost (fixedZone off) s e price =
           round2dp (of_int (wholeDays s e + 1) * Number price)"
proof -
  obtain c where p: "price = Hundredths c" by (cases price)
  define k where "k = (wholeDays s e + 1) * c"
  have x: "of_int (wholeDays s e + 1) * Number price * 100 = rat_of_int k"
    by (simp add: p k_def)
  have y: "of_int (wholeDays s e + 1) * Number price = rat_of_int k / 100"
    by (simp add: p k_def)
  have "calculateTotalCost (fixedZone off) s e price =
          of_int (Math_round (of_int (wholeDays s e + 1) * Number price * 100)) / 100"
    by (simp add: calculateTotalCost_def differenceInDays_fixedZone [OF assms])
  then have c: "calculateTotalCost (fixedZone off) s e price = rat_of_int k / 100"
    by (simp only: x Math_round_of_int)
  have "\<lfloor>rat_of_int k + 1 / 2\<rfloor> = k"
    by linarith
  then have r: "round2dp (of_int (wholeDays s e + 1) * Number price) = rat_of_int k / 100"
    unfolding round2dp_def x by (simp only:)
  show "calculateTotalCost (fixedZone off) s e price = of_int (wholeDays s e + 1) * Number price"
    by (simp only: c y)
  show "calculateTotalCost (fixedZone off) s e price =
           round2dp (of_int (wholeDays s e + 1) * Number price)"
    by (simp only: c r)
qed

lemma calculateTotalCost_march:
  "calculateTotalCost utc mar01 mar15 (Hundredths 2500) = 375"
proof -
  have "mar01 \<le> mar15" by (simp add: mar01_def mar15_def)
  from calculateTotalCost_fixedZone(1) [OF this, of 0 "Hundredths 2500"] show ?thesis
    by (simp add: utc_def wholeDays_def msPerDay_def mar01_def mar15_def)
qed

lemma calculateTotalCost_local_midnights:
  "differenceInDays newYork2024 (mar15 + 14400000) (mar01 + 18000000) = 14"
  "calculateTotalCost newYork2024 (mar01 + 18000000) (mar15 + 14400000) (Hundredths 2500) = 375"
  by code_simp+

text \<open>The days are full days: in UTC, from 23:00 to 01:00 of the next day is no full
  day, and the cost is the price of one day.\<close>

lemma calculateTotalCost_time_of_day:
  "differenceInDays utc (mar01 + 90000000) (mar01 + 82800000) = 0"
  "calculateTotalCost utc (mar01 + 82800000) (mar01 + 90000000) (Hundredths 2500) = 25"
  by code_simp+

text \<open>
  C3. The total cost is the whole calendar days from the start date to the end date,
  plus one, times the price per day, rounded to two decimal places. Where the server's
  clock is set back between the two dates the handler bills a day less: in New York,
  from 1 November 2024 to 5 November 2024 (midnight UTC both, four whole days apart, on
  the local calendar too) at 25.00 a day, \<open>differenceInDays\<close> is 3 and the cost 100.00,
  where five days at 25.00 are 125.00.
\<close>

theorem calculateTotalCost_clock_change:
  "nov01 \<le> nov05 \<and>
   differenceInDays newYork2024 nov05 nov01 = 3 \<and>
   calculateTotalCost newYork2024 nov01 nov05 (Hundredths 2500) = 100 \<and>
   wholeDays nov01 nov05 = 4 \<and>
   LocalTime newYork2024 nov05 div msPerDay - LocalTime newYork2024 nov01 div msPerDay = 4 \<and>
   round2dp (of_int (wholeDays nov01 nov05 + 1) * Number (Hundredths 2500)) = 125"
  by code_simp


subsection \<open>Status\<close>

text \<open>
  C4. The status resolver is a function of the two dates and the clock: it gives
  \<open>upcoming\<close> when now is before the start, \<open>completed\<close> when now is after the end
  (and not before the start, which cannot be when the start is not after the end),
  \<open>active\<close> when now is within the two dates, and never \<open>cancelled\<close>.
\<close>

theorem determineBookingStatus_cases:
  "(now < s \<longrightarrow> determineBookingStatus s e now = Upcoming) \<and>
   (\<not> now < s \<and> now > e \<longrightarrow> determineBookingStatus s e now = Completed) \<and>
   (s \<le> e \<and> now > e \<longrightarrow> determineBookingStatus s e now = Completed) \<and>
   (s \<le> now \<and> now \<le> e \<longrightarrow> determineBookingStatus s e now = Active) \<and>
   determineBookingStatus s e now \<noteq> Cancelled"
  by (simp add: determineBookingStatus_def)

theorem determineBookingStatus_cases_witness:
  "determineBookingStatus 10 20 5 = Upcoming \<and>
   determineBookingStatus 10 20 25 = Completed \<and>
   determineBookingStatus 10 20 15 = Active"
  using determineBookingStatus_cases [where s = 10 and e = 20 and now = 5]
    determineBookingStatus_cases [where s = 10 and e = 20 and now = 25]
    determineBookingStatus_cases [where s = 10 and e = 20 and now = 15]
  by simp

subsection \<open>Admission\<close>

lemma clauses_overlaps:
  assumes "s1 \<le> e1" and "s2 \<le> e2"
  shows "conflictClause s1 e1 s2 e2 \<longleftrightarrow> overlaps s1 e1 s2 e2"
    and "availabilityClause s1 e1 s2 e2 \<longleftrightarrow> overlaps s1 e1 s2 e2"
  using assms unfolding conflictClause_def availabilityClause_def overlaps_def by linarith+

lemma checkBookingConflict_iff:
  "checkBookingConflict uid s e None st \<longleftrightarrow>
     (\<exists>b \<in> set (bookings st). unitId b = uid \<and> (status b = Upcoming \<or> status b = Active) \<and>
        conflictClause s e (startDate b) (endDate b))"
  by (auto simp: checkBookingConflict_def filter_empty_conv)

lemma checkBookingConflict_overlaps:
  assumes "s \<le> e" and "\<forall>b \<in> set (bookings st). startDate b \<le> endDate b"
  shows "checkBookingConflict uid s e None st \<longleftrightarrow>
     (\<exists>b \<in> set (bookings st). unitId b = uid \<and> (status b = Upcoming \<or> status b = Active) \<and>
        overlaps s e (startDate b) (endDate b))"
  using assms by (auto simp: checkBookingConflict_iff clauses_overlaps(1))

lemma createBooking_failure_unchanged:
  "fst (createBooking z un uid s e now st) = Inl err \<Longrightarrow> snd (createBooking z un uid s e now st) = st"
  by (auto simp: createBooking_def Booking_create_def Let_def split: option.splits if_splits)

text \<open>
  C2. \<open>createBooking\<close> fails with \<open>NotFound\<close> when no unit has the id; otherwise with
  \<open>Unavailable\<close> when the unit's \<open>isAvailable\<close> flag is false; otherwise with
  \<open>Conflict\<close> when an upcoming or active booking of the unit overlaps the candidate
  range; otherwise with a validation error when the \<open>Booking\<close> model rejects the new
  row (a start date before the current instant, an end date not after the start date,
  a blank or over-long user name, a negative cost); otherwise it succeeds and adds
  exactly one booking, with the given user name, unit and dates, the computed total
  cost and the computed status. A failure leaves the store as it was.
\<close>

theorem createBooking_outcome:
  assumes "s \<le> e" and "\<forall>b \<in> set (bookings st). startDate b \<le> endDate b"
  shows "createBooking z un uid s e now st =
     (case StorageUnit_findByPk uid st of
        None \<Rightarrow> (Inl NotFound, st)
      | Some u \<Rightarrow>
          if \<not> isAvailable u then (Inl Unavailable, st)
          else if \<exists>b \<in> set (bookings st). unitId b = uid \<and>
                    (status b = Upcoming \<or> status b = Active) \<and>
                    overlaps s e (startDate b) (endDate b)
               then (Inl Conflict, st)
          else if s < now \<or> e \<le> s \<or> \<not> notEmpty un \<or> length un < 1 \<or> 255 < length un \<or>
                  calculateTotalCost z s e (pricePerDay u) < 0
               then (Inl ValidationError, st)
          else
            let b = \<lparr>booking_id = nextId st, userName = un, unitId = uid, startDate = s,
                       endDate = e, totalCost = calculateTotalCost z s e (pricePerDay u),
                       status = determineBookingStatus s e now\<rparr>
            in (Inr b, st\<lparr>bookings := bookings st @ [b], nextId := Suc (nextId st)\<rparr>))
     \<and> (\<forall>err. fst (createBooking z un uid s e now st) = Inl err \<longrightarrow>
              snd (createBooking z un uid s e now st) = st)"
proof
  show "\<forall>err. fst (createBooking z un uid s e now st) = Inl err \<longrightarrow>
              snd (createBooking z un uid s e now st) = st"
    using createBooking_failure_unchanged by blast
next
  show "createBooking z un uid s e now st =
     (case StorageUnit_findByPk uid st of
        None \<Rightarrow> (Inl NotFound, st)
      | Some u \<Rightarrow>
          if \<not> isAvailable u then (Inl Unavailable, st)
          else if \<exists>b \<in> set (bookings st). unitId b = uid \<and>
                    (status b = Upcoming \<or> status b = Active) \<and>
                    overlaps s e (startDate b) (endDate b)
               then (Inl Conflict, st)
          else if s < now \<or> e \<le> s \<or> \<not> notEmpty un \<or> length un < 1 \<or> 255 < length un \<or>
                  calculateTotalCost z s e (pricePerDay u) < 0
               then (Inl ValidationError, st)
          else
            let b = \<lparr>booking_id = nextId st, userName = un, unitId = uid, startDate = s,
                       endDate = e, totalCost = calculateTotalCost z s e (pricePerDay u),
                       status = determineBookingStatus s e now\<rparr>
            in (Inr b, st\<lparr>bookings := bookings st @ [b], nextId := Suc (nextId st)\<rparr>))"
  proof (cases "StorageUnit_findByPk uid st")
    case None
    then show ?thesis by (simp add: createBooking_def)
  next
    case (Some u)
    show ?thesis
      unfolding createBooking_def Some option.case
        checkBookingConflict_overlaps [OF assms] Booking_create_def Booking_validate_def Let_def
      by (auto simp: not_less not_le)
  qed
qed


theorem createBooking_outcome_witness:
  "mar20 \<le> mar25 \<and> list_all (\<lambda>b. startDate b \<le> endDate b) (bookings store_booked) \<and>
   createBooking utc ''Eve'' 2 mar20 mar25 mar01 store_booked =
     (Inr \<lparr>booking_id = 4, userName = ''Eve'', unitId = 2, startDate = mar20,
            endDate = mar25, totalCost = 150, status = Upcoming\<rparr>,
      store_booked\<lparr>bookings := bookings store_booked @
         [\<lparr>booking_id = 4, userName = ''Eve'', unitId = 2, startDate = mar20,
            endDate = mar25, totalCost = 150, status = Upcoming\<rparr>],
        nextId := 5\<rparr>) \<and>
   createBooking utc ''Eve'' 2 mar10 mar20 mar01 store_booked = (Inl Conflict, store_booked)"
proof -
  have wf: "\<forall>b \<in> set (bookings store_booked). startDate b \<le> endDate b"
    by (simp add: store_booked_def bookingTest_def bookingDone_def bookingGone_def
        mar01_def mar15_def mar20_def mar25_def)
  have le: "mar20 \<le> mar25" "mar10 \<le> mar20"
    by (simp_all add: mar10_def mar20_def mar25_def)
  have cost: "calculateTotalCost utc 1710892800000 1711324800000 (Hundredths 2500) = 150"
    by code_simp
  have u: "StorageUnit_findByPk 2 store_booked = Some unitB2"
    by (simp add: StorageUnit_findByPk_def store_booked_def unitB2_def)
  have pr: "isAvailable unitB2" "pricePerDay unitB2 = Hundredths 2500"
    by (simp_all add: unitB2_def)
  have bk: "bookings store_booked = [bookingTest, bookingDone, bookingGone]"
    and nx: "nextId store_booked = 4"
    by (simp_all add: store_booked_def)
  have ok: "createBooking utc ''Eve'' 2 mar20 mar25 mar01 store_booked =
     (Inr \<lparr>booking_id = 4, userName = ''Eve'', unitId = 2, startDate = mar20,
            endDate = mar25, totalCost = 150, status = Upcoming\<rparr>,
      store_booked\<lparr>bookings := bookings store_booked @
         [\<lparr>booking_id = 4, userName = ''Eve'', unitId = 2, startDate = mar20,
            endDate = mar25, totalCost = 150, status = Upcoming\<rparr>],
        nextId := 5\<rparr>)"
    using createBooking_outcome [OF le(1) wf, of utc "''Eve''" 2 mar01]
    by (simp add: Let_def u pr cost bk nx bookingTest_def bookingDone_def
        bookingGone_def overlaps_def determineBookingStatus_def notEmpty_def whitespace_def
        mar01_def mar15_def mar20_def mar25_def)
  have no: "createBooking utc ''Eve'' 2 mar10 mar20 mar01 store_booked = (Inl Conflict, store_booked)"
    using createBooking_outcome [OF le(2) wf, of utc "''Eve''" 2 mar01]
    by (simp add: u pr bk bookingTest_def bookingDone_def
        bookingGone_def overlaps_def mar01_def mar10_def mar15_def mar20_def mar25_def)
  show ?thesis using wf le(1) ok no by (simp add: list_all_iff)
qed

text \<open>A request for a booking that starts today at midnight, sent at ten in the morning
  for an available unit without bookings, passes \<open>validateBookingData\<close> (which compares
  the start with the start of today) and is then rejected by the model's
  \<open>isAfterToday\<close> validator: the admission does not succeed although the unit exists,
  is available and has no conflict.\<close>

theorem createBooking_same_day_counterexample:
  "StorageUnit_findByPk 2 store_seed = Some unitB2 \<and> isAvailable unitB2 \<and>
   \<not> checkBookingConflict 2 mar01 mar15 None store_seed \<and>
   createBooking utc ''Test User'' 2 mar01 mar15 (mar01 + 36000000) store_seed =
     (Inl ValidationError, store_seed)"
  by (simp add: StorageUnit_findByPk_def store_seed_def unitB2_def checkBookingConflict_def
      createBooking_def Booking_create_def Booking_validate_def mar01_def mar15_def)

subsection \<open>Cancellation\<close>

lemma find_update_status:
  "find (\<lambda>b. booking_id b = k) (map (\<lambda>b. if booking_id b = j then b\<lparr>status := s\<rparr> else b) bs) =
     map_option (\<lambda>b. if booking_id b = j then b\<lparr>status := s\<rparr> else b)
       (find (\<lambda>b. booking_id b = k) bs)"
  by (induction bs) auto

lemma Booking_findByPk_update:
  "Booking_findByPk k (Booking_update_status j s st) =
     map_option (\<lambda>b. if booking_id b = j then b\<lparr>status := s\<rparr> else b) (Booking_findByPk k st)"
  by (simp add: Booking_findByPk_def Booking_update_status_def find_update_status)

lemma Booking_findByPk_id: "Booking_findByPk k st = Some b \<Longrightarrow> booking_id b = k"
  by (auto simp: Booking_findByPk_def find_Some_iff)

text \<open>
  C6. \<open>cancelBooking\<close> fails with \<open>NotFound\<close> when no booking has the id, with
  \<open>AlreadyCancelled\<close> when the booking's status is \<open>cancelled\<close>, with
  \<open>InvalidTransition\<close> when it is \<open>completed\<close>; for an upcoming or active booking it
  succeeds and the booking's status becomes \<open>cancelled\<close>. A failure leaves the store,
  and so the booking, as it was.
\<close>

theorem cancelBooking_outcome:
  "(Booking_findByPk k st = None \<longrightarrow> cancelBooking k st = (Inl NotFound, st)) \<and>
   (\<forall>b. Booking_findByPk k st = Some b \<longrightarrow>
      (status b = Cancelled \<longrightarrow> cancelBooking k st = (Inl AlreadyCancelled, st)) \<and>
      (status b = Completed \<longrightarrow> cancelBooking k st = (Inl InvalidTransition, st)) \<and>
      (status b = Upcoming \<or> status b = Active \<longrightarrow>
         (\<exists>r. fst (cancelBooking k st) = Inr r) \<and>
         Booking_findByPk k (snd (cancelBooking k st)) = Some (b\<lparr>status := Cancelled\<rparr>))) \<and>
   (\<forall>err. fst (cancelBooking k st) = Inl err \<longrightarrow> snd (cancelBooking k st) = st)"
proof (intro conjI allI impI)
  fix b assume f: "Booking_findByPk k st = Some b" and s: "status b = Upcoming \<or> status b = Active"
  then have c: "cancelBooking k st =
      (Inr \<lparr>bookingId = k, previousStatus = Cancelled, newStatus = Cancelled\<rparr>,
       Booking_update_status k Cancelled st)"
    by (auto simp: cancelBooking_def)
  show "\<exists>r. fst (cancelBooking k st) = Inr r" by (simp add: c)
  show "Booking_findByPk k (snd (cancelBooking k st)) = Some (b\<lparr>status := Cancelled\<rparr>)"
    using f Booking_findByPk_id [OF f] by (simp add: c Booking_findByPk_update)
qed (auto simp: cancelBooking_def split: option.splits if_splits)

theorem cancelBooking_outcome_witness:
  "Booking_findByPk 7 store_booked = None \<and>
   cancelBooking 7 store_booked = (Inl NotFound, store_booked) \<and>
   Booking_findByPk 3 store_booked = Some bookingGone \<and> status bookingGone = Cancelled \<and>
   cancelBooking 3 store_booked = (Inl AlreadyCancelled, store_booked) \<and>
   Booking_findByPk 2 store_booked = Some bookingDone \<and> status bookingDone = Completed \<and>
   cancelBooking 2 store_booked = (Inl InvalidTransition, store_booked) \<and>
   Booking_findByPk 1 store_booked = Some bookingTest \<and> status bookingTest = Upcoming \<and>
   Booking_findByPk 1 (snd (cancelBooking 1 store_booked)) = Some (bookingTest\<lparr>status := Cancelled\<rparr>)"
proof -
  have f: "Booking_findByPk 7 store_booked = None"
    "Booking_findByPk 3 store_booked = Some bookingGone"
    "Booking_findByPk 2 store_booked = Some bookingDone"
    "Booking_findByPk 1 store_booked = Some bookingTest"
    by (simp_all add: Booking_findByPk_def store_booked_def bookingTest_def bookingDone_def
        bookingGone_def)
  have s: "status bookingGone = Cancelled" "status bookingDone = Completed"
    "status bookingTest = Upcoming"
    by (simp_all add: bookingTest_def bookingDone_def bookingGone_def)
  show ?thesis
    using cancelBooking_outcome [of 7 store_booked] cancelBooking_outcome [of 3 store_booked]
      cancelBooking_outcome [of 2 store_booked] cancelBooking_outcome [of 1 store_booked]
    by (simp add: f s del: One_nat_def)
qed


lemma cancelBooking_success:
  assumes "Booking_findByPk k st = Some b" and "status b = Upcoming \<or> status b = Active"
  shows "cancelBooking k st =
      (Inr \<lparr>bookingId = k, previousStatus = Cancelled, newStatus = Cancelled\<rparr>,
       Booking_update_status k Cancelled st)"
  using assms by (auto simp: cancelBooking_def)

text \<open>
  C7. A successful cancellation changes the booking's status only: for a booking that is
  upcoming or active, the row found under the id after \<open>cancelBooking\<close> is
  \<open>cancelled\<close> and has the unit, user name, start date, end date and total cost it had
  before. The other bookings, the units and the id sequence are as they were.
\<close>

theorem cancelBooking_frame:
  assumes "Booking_findByPk k st = Some b" and "status b = Upcoming \<or> status b = Active"
  shows "\<exists>r st' b'. cancelBooking k st = (Inr r, st') \<and>
           Booking_findByPk k st' = Some b' \<and>
           status b' = Cancelled \<and>
           booking_id b' = booking_id b \<and> unitId b' = unitId b \<and> userName b' = userName b \<and>
           startDate b' = startDate b \<and> endDate b' = endDate b \<and> totalCost b' = totalCost b \<and>
           (\<forall>j. j \<noteq> k \<longrightarrow> Booking_findByPk j st' = Booking_findByPk j st) \<and>
           units st' = units st \<and> nextId st' = nextId st"
proof -
  have other: "Booking_findByPk j (Booking_update_status k Cancelled st) = Booking_findByPk j st"
    if "j \<noteq> k" for j
  proof (cases "Booking_findByPk j st")
    case None
    then show ?thesis by (simp add: Booking_findByPk_update)
  next
    case (Some c)
    then show ?thesis
      using that Booking_findByPk_id [OF Some] by (simp add: Booking_findByPk_update)
  qed
  have "Booking_findByPk k (Booking_update_status k Cancelled st) = Some (b\<lparr>status := Cancelled\<rparr>)"
    using assms(1) Booking_findByPk_id [OF assms(1)] by (simp add: Booking_findByPk_update)
  then show ?thesis
    using other by (simp add: cancelBooking_success [OF assms] Booking_update_status_def)
qed

theorem cancelBooking_frame_witness:
  "Booking_findByPk 1 store_booked = Some bookingTest \<and> status bookingTest = Upcoming \<and>
   (\<exists>r st' b'. cancelBooking 1 store_booked = (Inr r, st') \<and>
      Booking_findByPk 1 st' = Some b' \<and> status b' = Cancelled \<and>
      unitId b' = 2 \<and> userName b' = ''Test User'' \<and> startDate b' = mar01 \<and>
      endDate b' = mar15 \<and> totalCost b' = 375 \<and>
      Booking_findByPk 2 st' = Some bookingDone)"
proof -
  have f: "Booking_findByPk 1 store_booked = Some bookingTest"
    "Booking_findByPk 2 store_booked = Some bookingDone"
    by (simp_all add: Booking_findByPk_def store_booked_def bookingTest_def bookingDone_def)
  have s: "status bookingTest = Upcoming"
    by (simp add: bookingTest_def)
  have v: "unitId bookingTest = 2" "userName bookingTest = ''Test User''"
    "startDate bookingTest = mar01" "endDate bookingTest = mar15" "totalCost bookingTest = 375"
    by (simp_all add: bookingTest_def)
  from cancelBooking_frame [OF f(1) disjI1 [OF s]]
  obtain r st' b' where "cancelBooking 1 store_booked = (Inr r, st')"
    "Booking_findByPk 1 st' = Some b'" "status b' = Cancelled"
    "unitId b' = unitId bookingTest" "userName b' = userName bookingTest"
    "startDate b' = startDate bookingTest" "endDate b' = endDate bookingTest"
    "totalCost b' = totalCost bookingTest"
    "\<forall>j. j \<noteq> 1 \<longrightarrow> Booking_findByPk j st' = Booking_findByPk j store_booked"
    by blast
  then show ?thesis
    using f s v by (intro conjI exI [of _ r] exI [of _ st'] exI [of _ b']) simp_all
qed

subsection \<open>Availability\<close>

lemma filter_nil_iff_overlaps:
  assumes "s \<le> e" and "\<forall>b \<in> set bs. startDate b \<le> endDate b"
  shows "filter (\<lambda>b. unitId b = uid \<and> (status b = Upcoming \<or> status b = Active) \<and>
                      availabilityClause s e (startDate b) (endDate b)) bs =
         filter (\<lambda>b. unitId b = uid \<and> (status b = Upcoming \<or> status b = Active) \<and>
                      overlaps s e (startDate b) (endDate b)) bs"
  using assms by (intro filter_cong refl) (auto simp: clauses_overlaps(2))

text \<open>
  C8. For a range with start before end and a unit that exists, \<open>checkAvailability\<close>
  answers, and \<open>available\<close> is true exactly when the unit's \<open>isAvailable\<close> flag is true
  and no upcoming or active booking of the unit overlaps the range; the conflicts it
  lists are those bookings. For a unit whose flag is false, \<open>available\<close> is false, also
  with no conflict listed. Stored bookings end no earlier than they start.
\<close>

theorem checkAvailability_available:
  assumes "s < e" and "StorageUnit_findByPk uid st = Some u"
    and "\<forall>b \<in> set (bookings st). startDate b \<le> endDate b"
  shows "\<exists>r. checkAvailability uid (Some s) (Some e) st = Inr r \<and>
           conflicts r = filter (\<lambda>b. unitId b = uid \<and> (status b = Upcoming \<or> status b = Active) \<and>
                                     overlaps s e (startDate b) (endDate b)) (bookings st) \<and>
           (available r \<longleftrightarrow>
              isAvailable u \<and>
              \<not> (\<exists>b \<in> set (bookings st). unitId b = uid \<and>
                     (status b = Upcoming \<or> status b = Active) \<and>
                     overlaps s e (startDate b) (endDate b))) \<and>
           (\<not> isAvailable u \<longrightarrow> \<not> available r)"
proof -
  have le: "s \<le> e" using assms(1) by simp
  show ?thesis
    using assms(1)
    by (auto simp: checkAvailability_def assms(2) Let_def filter_nil_iff_overlaps [OF le assms(3)]
        filter_empty_conv)
qed

theorem checkAvailability_available_witness:
  "mar20 < mar25 \<and> StorageUnit_findByPk 9 store_booked = Some unitG9 \<and>
   list_all (\<lambda>b. startDate b \<le> endDate b) (bookings store_booked) \<and> \<not> isAvailable unitG9 \<and>
   (\<exists>r. checkAvailability 9 (Some mar20) (Some mar25) store_booked = Inr r \<and>
        conflicts r = [] \<and> \<not> available r) \<and>
   mar10 < mar20 \<and> StorageUnit_findByPk 2 store_booked = Some unitB2 \<and>
   (\<exists>r. checkAvailability 2 (Some mar10) (Some mar20) store_booked = Inr r \<and>
        conflicts r = [bookingTest] \<and> \<not> available r) \<and>
   (\<exists>r. checkAvailability 2 (Some mar20) (Some mar25) store_booked = Inr r \<and>
        conflicts r = [] \<and> available r)"
proof -
  have wf: "\<forall>b \<in> set (bookings store_booked). startDate b \<le> endDate b"
    by (simp add: store_booked_def bookingTest_def bookingDone_def bookingGone_def
        mar01_def mar15_def mar20_def mar25_def)
  have lt: "mar20 < mar25" "mar10 < mar20"
    by (simp_all add: mar10_def mar20_def mar25_def)
  have u: "StorageUnit_findByPk 9 store_booked = Some unitG9"
    "StorageUnit_findByPk 2 store_booked = Some unitB2"
    by (simp_all add: StorageUnit_findByPk_def store_booked_def unitB2_def unitG9_def)
  have av: "\<not> isAvailable unitG9" "isAvailable unitB2"
    by (simp_all add: unitG9_def unitB2_def)
  have bk: "bookings store_booked = [bookingTest, bookingDone, bookingGone]"
    by (simp add: store_booked_def)
  have fl: "filter (\<lambda>b. unitId b = 9 \<and> (status b = Upcoming \<or> status b = Active) \<and>
              overlaps mar20 mar25 (startDate b) (endDate b)) (bookings store_booked) = []"
    "filter (\<lambda>b. unitId b = 2 \<and> (status b = Upcoming \<or> status b = Active) \<and>
              overlaps mar10 mar20 (startDate b) (endDate b)) (bookings store_booked) = [bookingTest]"
    "filter (\<lambda>b. unitId b = 2 \<and> (status b = Upcoming \<or> status b = Active) \<and>
              overlaps mar20 mar25 (startDate b) (endDate b)) (bookings store_booked) = []"
    by (simp_all add: bk bookingTest_def bookingDone_def bookingGone_def overlaps_def
        mar01_def mar10_def mar15_def mar20_def mar25_def)
  have ex: "\<not> (\<exists>b \<in> set (bookings store_booked). unitId b = 2 \<and>
                     (status b = Upcoming \<or> status b = Active) \<and>
                     overlaps mar20 mar25 (startDate b) (endDate b))"
    "\<exists>b \<in> set (bookings store_booked). unitId b = 2 \<and>
                     (status b = Upcoming \<or> status b = Active) \<and>
                     overlaps mar10 mar20 (startDate b) (endDate b)"
    by (simp_all add: bk bookingTest_def bookingDone_def bookingGone_def overlaps_def
        mar01_def mar10_def mar15_def mar20_def mar25_def)
  show ?thesis
    using checkAvailability_available [OF lt(1) u(1) wf]
      checkAvailability_available [OF lt(2) u(2) wf]
      checkAvailability_available [OF lt(1) u(2) wf]
    unfolding fl using wf lt u av ex by (auto simp: list_all_iff)
qed


subsection \<open>Status refresh on read\<close>

lemma ids_update_status:
  "map booking_id (bookings (Booking_update_status k s st)) = map booking_id (bookings st)"
  by (simp add: Booking_update_status_def comp_def if_distrib cong: if_cong)

lemma same_id_same_row:
  assumes "distinct (map booking_id bs)" and "r \<in> set bs" and "b \<in> set bs"
    and "booking_id r = booking_id b"
  shows "r = b"
  using assms by (meson distinct_map inj_on_def)

lemma find_distinct_id:
  assumes "distinct (map booking_id bs)" and "b \<in> set bs"
  shows "find (\<lambda>x. booking_id x = booking_id b) bs = Some b"
  using assms by (induction bs) (auto simp: rev_image_eqI)

lemma update_status_keeps:
  assumes "b \<in> set (bookings st)" and "booking_id b \<noteq> k"
  shows "b \<in> set (bookings (Booking_update_status k s st))"
  using assms by (force simp: Booking_update_status_def)

lemma refreshStatus_keeps:
  assumes "b \<in> set (bookings st)" and "status b = Cancelled"
    and "r = b \<or> booking_id r \<noteq> booking_id b"
  shows "b \<in> set (bookings (snd (refreshStatus now r st)))"
  using assms by (auto simp: refreshStatus_def Let_def update_status_keeps)

lemma refreshAll_keeps:
  assumes "b \<in> set (bookings st)" and "status b = Cancelled"
    and "\<forall>r \<in> set rows. r = b \<or> booking_id r \<noteq> booking_id b"
  shows "b \<in> set (bookings (snd (refreshAll now rows st)))"
  using assms
proof (induction rows arbitrary: st)
  case Nil
  then show ?case by simp
next
  case (Cons r rows)
  have "b \<in> set (bookings (snd (refreshStatus now r st)))"
    using Cons.prems by (intro refreshStatus_keeps) auto
  then have "b \<in> set (bookings (snd (refreshAll now rows (snd (refreshStatus now r st)))))"
    using Cons.prems by (intro Cons.IH) auto
  then show ?case by (simp add: split_beta)
qed

lemma refreshStatus_ids:
  "map booking_id (bookings (snd (refreshStatus now r st))) = map booking_id (bookings st)"
  by (simp add: refreshStatus_def Let_def ids_update_status)

lemma refreshAll_ids:
  "map booking_id (bookings (snd (refreshAll now rows st))) = map booking_id (bookings st)"
  by (induction rows arbitrary: st) (simp_all add: split_beta refreshStatus_ids)

lemma refreshAll_rows:
  "fst (refreshAll now rows st) = map (\<lambda>r. fst (refreshStatus now r st)) rows"
proof (induction rows arbitrary: st)
  case Nil
  then show ?case by simp
next
  case (Cons r rows)
  have "fst (refreshStatus now x st1) = fst (refreshStatus now x st2)" for x st1 st2
    by (simp add: refreshStatus_def Let_def)
  then have "map (\<lambda>x. fst (refreshStatus now x (snd (refreshStatus now r st)))) rows =
             map (\<lambda>x. fst (refreshStatus now x st)) rows"
    by (intro map_cong refl)
  then show ?case by (simp add: split_beta Cons.IH)
qed

lemma refreshStatus_row:
  "booking_id (fst (refreshStatus now r st)) = booking_id r"
  "status r = Cancelled \<Longrightarrow> fst (refreshStatus now r st) = r"
  by (simp_all add: refreshStatus_def Let_def)

text \<open>
  C5. A booking stored as \<open>cancelled\<close> keeps its status through the status refresh of
  every read, whatever the clock says: after listing a user's bookings and after
  fetching any booking by id, the row under its id is the same row; a listing that
  returns it returns it unchanged, and fetching it returns it unchanged. The primary
  key of the table is unique.
\<close>

theorem cancelled_survives_reads:
  assumes "distinct (map booking_id (bookings st))"
    and "b \<in> set (bookings st)" and "status b = Cancelled"
  shows "Booking_findByPk (booking_id b) (snd (listBookingsForUser name f now st)) = Some b \<and>
         (\<forall>r \<in> set (fst (listBookingsForUser name f now st)).
            booking_id r = booking_id b \<longrightarrow> r = b) \<and>
         Booking_findByPk (booking_id b) (snd (getBooking k now st)) = Some b \<and>
         getBooking (booking_id b) now st = (Inr b, st)"
proof (intro conjI ballI impI)
  let ?rows = "rev (filter (\<lambda>b. iLike (userName b) (''%'' @ name @ ''%'') \<and>
                 (case f of None \<Rightarrow> True | Some f \<Rightarrow> status b = f)) (bookings st))"
  have l: "listBookingsForUser name f now st = refreshAll now ?rows st"
    by (simp add: listBookingsForUser_def)
  have rows: "\<forall>r \<in> set ?rows. r = b \<or> booking_id r \<noteq> booking_id b"
    using same_id_same_row [OF assms(1) _ assms(2)] by auto
  have "b \<in> set (bookings (snd (refreshAll now ?rows st)))"
    using assms(2,3) rows by (rule refreshAll_keeps)
  moreover have "distinct (map booking_id (bookings (snd (refreshAll now ?rows st))))"
    using assms(1) by (simp only: refreshAll_ids)
  ultimately show "Booking_findByPk (booking_id b) (snd (listBookingsForUser name f now st)) = Some b"
    unfolding l Booking_findByPk_def by (intro find_distinct_id)
  show "r = b" if "r \<in> set (fst (listBookingsForUser name f now st))"
    and "booking_id r = booking_id b" for r
  proof -
    from that(1) obtain r0 where r0: "r0 \<in> set ?rows" "r = fst (refreshStatus now r0 st)"
      unfolding l refreshAll_rows by auto
    then have "booking_id r0 = booking_id b"
      using that(2) by (simp add: refreshStatus_row(1))
    then have "r0 = b" using rows r0(1) by blast
    then show ?thesis using r0(2) assms(3) by (simp add: refreshStatus_row(2))
  qed
  have fb: "Booking_findByPk (booking_id b) st = Some b"
    unfolding Booking_findByPk_def using assms(1,2) by (rule find_distinct_id)
  show "getBooking (booking_id b) now st = (Inr b, st)"
    by (simp add: getBooking_def fb assms(3))
  show "Booking_findByPk (booking_id b) (snd (getBooking k now st)) = Some b"
  proof (cases "Booking_findByPk k st")
    case None
    then show ?thesis by (simp add: getBooking_def fb)
  next
    case (Some c)
    have ck: "booking_id c = k" using Some by (rule Booking_findByPk_id)
    show ?thesis
    proof (cases "k = booking_id b")
      case True
      then have "c = b" using Some fb by simp
      then show ?thesis using Some assms(3) fb by (simp add: getBooking_def)
    next
      case False
      then show ?thesis
        using Some ck fb by (auto simp: getBooking_def Let_def Booking_findByPk_update)
    qed
  qed
qed

theorem cancelled_survives_reads_witness:
  "distinct (map booking_id (bookings store_booked)) \<and> bookingGone \<in> set (bookings store_booked) \<and>
   status bookingGone = Cancelled \<and>
   Booking_findByPk 3 (snd (listBookingsForUser ''bob'' None (mar25 + 1) store_booked)) = Some bookingGone \<and>
   Booking_findByPk 3 (snd (getBooking 1 (mar25 + 1) store_booked)) = Some bookingGone \<and>
   getBooking 3 (mar25 + 1) store_booked = (Inr bookingGone, store_booked)"
proof -
  have d: "distinct (map booking_id (bookings store_booked))"
    by (simp add: store_booked_def bookingTest_def bookingDone_def bookingGone_def)
  have m: "bookingGone \<in> set (bookings store_booked)"
    by (simp add: store_booked_def)
  have s: "status bookingGone = Cancelled" and i: "booking_id bookingGone = 3"
    by (simp_all add: bookingGone_def)
  show ?thesis
    using cancelled_survives_reads [OF d m s, of "''bob''" None "mar25 + 1" 1] d m s
    by (simp add: i)
qed


subsection \<open>Admissions one after another, and interleaved\<close>

text \<open>A handler that the event loop runs through its three database calls without
  another request in between is \<open>createBooking\<close>.\<close>

lemma createBooking_success:
  assumes "createBooking z un uid s e now st = (Inr b, st')"
  shows "\<exists>u. StorageUnit_findByPk uid st = Some u \<and> isAvailable u \<and>
           b = \<lparr>booking_id = nextId st, userName = un, unitId = uid, startDate = s,
                 endDate = e, totalCost = calculateTotalCost z s e (pricePerDay u),
                 status = determineBookingStatus s e now\<rparr> \<and>
           Booking_validate now b \<and>
           st' = st\<lparr>bookings := bookings st @ [b], nextId := Suc (nextId st)\<rparr>"
  using assms
  by (auto simp: createBooking_def Booking_create_def Let_def split: option.splits if_splits)

lemma uninterrupted_admission:
  "interleave z [False, False, False] now r r' (Received, a', st) =
     (Responded (fst (createBooking z (rq_userName r) (rq_unitId r) (rq_startDate r) (rq_endDate r) now st)),
      a',
      snd (createBooking z (rq_userName r) (rq_unitId r) (rq_startDate r) (rq_endDate r) now st))"
  by (simp add: createBooking_def Let_def split_beta split: option.splits)

text \<open>
  C9. The conflict check and the insert of an admission are two database calls with no
  transaction around them. When one admission has succeeded, and so committed its
  booking, before another one for the same unit starts, and the two ranges overlap, the
  later one fails with \<open>Conflict\<close>.
\<close>

theorem sequential_admission_conflict:
  assumes "createBooking z un1 uid s1 e1 now1 st = (Inr b1, st1)"
    and "s2 \<le> e2" and "overlaps s1 e1 s2 e2"
  shows "createBooking z un2 uid s2 e2 now2 st1 = (Inl Conflict, st1)"
proof -
  from createBooking_success [OF assms(1)] obtain u where
    u: "StorageUnit_findByPk uid st = Some u" "isAvailable u"
    and b1: "unitId b1 = uid" "startDate b1 = s1" "endDate b1 = e1"
      "status b1 = determineBookingStatus s1 e1 now1"
    and v: "Booking_validate now1 b1"
    and st1: "st1 = st\<lparr>bookings := bookings st @ [b1], nextId := Suc (nextId st)\<rparr>"
    by auto
  have le: "now1 \<le> s1" "s1 < e1"
    using v b1 by (simp_all add: Booking_validate_def)
  then have stat: "status b1 = Upcoming \<or> status b1 = Active"
    by (simp add: b1(4) determineBookingStatus_def)
  have "overlaps s2 e2 s1 e1"
    using assms(3) by (simp add: overlaps_def)
  then have "conflictClause s2 e2 (startDate b1) (endDate b1)"
    using clauses_overlaps(1) [of s2 e2 s1 e1] assms(2) le(2) b1 by simp
  then have "checkBookingConflict uid s2 e2 None st1"
    using stat b1(1) unfolding checkBookingConflict_iff st1 by auto
  moreover have "StorageUnit_findByPk uid st1 = Some u"
    using u(1) by (simp add: st1 StorageUnit_findByPk_def)
  ultimately show ?thesis
    using u(2) by (simp add: createBooking_def)
qed

theorem sequential_admission_conflict_witness:
  "createBooking utc ''Test User'' 2 mar01 mar15 (mar01 - 1) store_seed =
     (Inr bookingTest, store_seed\<lparr>bookings := [bookingTest], nextId := 2\<rparr>) \<and>
   mar10 \<le> mar20 \<and> overlaps mar01 mar15 mar10 mar20 \<and>
   createBooking utc ''Ann'' 2 mar10 mar20 (mar01 - 1) (store_seed\<lparr>bookings := [bookingTest], nextId := 2\<rparr>) =
     (Inl Conflict, store_seed\<lparr>bookings := [bookingTest], nextId := 2\<rparr>)"
proof -
  have cost: "calculateTotalCost utc 1709251200000 1710460800000 (Hundredths 2500) = 375"
    by code_simp
  have c: "createBooking utc ''Test User'' 2 mar01 mar15 (mar01 - 1) store_seed =
     (Inr bookingTest, store_seed\<lparr>bookings := [bookingTest], nextId := 2\<rparr>)"
    by (simp add: Let_def createBooking_def StorageUnit_findByPk_def store_seed_def unitB2_def
        checkBookingConflict_def Booking_create_def Booking_validate_def notEmpty_def
        whitespace_def determineBookingStatus_def bookingTest_def cost mar01_def mar15_def)
  have le: "mar10 \<le> mar20" and ov: "overlaps mar01 mar15 mar10 mar20"
    by (simp_all add: overlaps_def mar01_def mar10_def mar15_def mar20_def)
  show ?thesis
    using sequential_admission_conflict [OF c le ov, of "''Ann''" "mar01 - 1"] c le ov by simp
qed

text \<open>Two requests for overlapping ranges on the same unit, whose handlers take turns
  at each \<open>await\<close>: both run their conflict check before either inserts, and both
  succeed.\<close>

theorem admission_race_counterexample:
  "interleave utc [False, True, False, True, False, True] (mar01 - 1)
     \<lparr>rq_userName = ''Test User'', rq_unitId = 2, rq_startDate = mar01, rq_endDate = mar15\<rparr>
     \<lparr>rq_userName = ''Ann'', rq_unitId = 2, rq_startDate = mar10, rq_endDate = mar20\<rparr>
     (Received, Received, store_seed) =
   (Responded (Inr bookingTest),
    Responded (Inr \<lparr>booking_id = 2, userName = ''Ann'', unitId = 2, startDate = mar10,
                     endDate = mar20, totalCost = 275, status = Upcoming\<rparr>),
    store_seed\<lparr>bookings :=
      [bookingTest,
       \<lparr>booking_id = 2, userName = ''Ann'', unitId = 2, startDate = mar10,
          endDate = mar20, totalCost = 275, status = Upcoming\<rparr>],
      nextId := 3\<rparr>) \<and>
   overlaps mar01 mar15 mar10 mar20"
proof -
  have cost: "calculateTotalCost utc 1709251200000 1710460800000 (Hundredths 2500) = 375"
    "calculateTotalCost utc 1710028800000 1710892800000 (Hundredths 2500) = 275"
    by code_simp+
  show ?thesis
    by (simp add: Let_def StorageUnit_findByPk_def store_seed_def unitB2_def
        checkBookingConflict_def Booking_create_def Booking_validate_def notEmpty_def
        whitespace_def determineBookingStatus_def bookingTest_def cost overlaps_def
        mar01_def mar10_def mar15_def mar20_def)
qed


subsection \<open>Listing by user name\<close>

text \<open>A query without \<open>%\<close>, \<open>_\<close> and backslash selects the bookings whose user name
  contains it, letter case aside.\<close>

lemma like_match_percent: "like_match ''%'' cs"
  by (induction cs) simp_all

lemma like_match_any_run:
  "like_match (CHR ''%'' # ps) cs \<longleftrightarrow> (\<exists>as bs. cs = as @ bs \<and> like_match ps bs)"
proof (induction cs)
  case Nil
  then show ?case by simp
next
  case (Cons c cs)
  show ?case
  proof
    assume "like_match (CHR ''%'' # ps) (c # cs)"
    then consider "like_match ps (c # cs)" | "like_match (CHR ''%'' # ps) cs"
      by auto
    then show "\<exists>as bs. c # cs = as @ bs \<and> like_match ps bs"
    proof cases
      case 1
      then show ?thesis by (intro exI [of _ "[]"] exI [of _ "c # cs"]) simp
    next
      case 2
      then obtain as bs where "cs = as @ bs" "like_match ps bs"
        using Cons.IH by blast
      then show ?thesis by (intro exI [of _ "c # as"] exI [of _ bs]) simp
    qed
  next
    assume "\<exists>as bs. c # cs = as @ bs \<and> like_match ps bs"
    then obtain as bs where ab: "c # cs = as @ bs" "like_match ps bs"
      by blast
    show "like_match (CHR ''%'' # ps) (c # cs)"
    proof (cases as)
      case Nil
      then have "bs = c # cs" using ab(1) by simp
      then show ?thesis using ab(2) by simp
    next
      case (Cons a as')
      then have "cs = as' @ bs" using ab(1) by simp
      then have "like_match (CHR ''%'' # ps) cs"
        using Cons.IH ab(2) by blast
      then show ?thesis by simp
    qed
  qed
qed

lemma like_match_literal:
  assumes "\<forall>c \<in> set qs. \<not> wildcard c"
  shows "like_match (qs @ ps) cs \<longleftrightarrow> (\<exists>bs. cs = qs @ bs \<and> like_match ps bs)"
  using assms
proof (induction qs arbitrary: cs)
  case Nil
  then show ?case by simp
next
  case (Cons q qs)
  then have q: "q \<noteq> CHR ''%''" "q \<noteq> CHR ''_''" "q \<noteq> CHR 0x5C"
    by (auto simp: wildcard_def)
  show ?case
  proof (cases cs)
    case Nil
    then show ?thesis using q by simp
  next
    case (Cons c cs')
    then show ?thesis using q Cons.IH [of cs'] Cons.prems by auto
  qed
qed

lemma like_match_contains:
  assumes "\<forall>c \<in> set qs. \<not> wildcard c"
  shows "like_match (''%'' @ qs @ ''%'') cs \<longleftrightarrow> sublist qs cs"
proof -
  have "like_match (''%'' @ qs @ ''%'') cs \<longleftrightarrow>
          (\<exists>as bs. cs = as @ bs \<and> like_match (qs @ ''%'') bs)"
    using like_match_any_run [of "qs @ ''%''" cs] by simp
  also have "\<dots> \<longleftrightarrow> (\<exists>as bs. cs = as @ bs \<and> (\<exists>ds. bs = qs @ ds))"
    by (simp add: like_match_literal [OF assms] like_match_percent)
  also have "\<dots> \<longleftrightarrow> sublist qs cs"
    by (auto simp: sublist_def)
  finally show ?thesis .
qed

lemma of_char_lower_char:
  "of_char (lower_char c) = (if 65 \<le> (of_char c :: nat) \<and> (of_char c :: nat) \<le> 90
                             then of_char c + 32 else (of_char c :: nat))"
  by (simp add: lower_char_def Let_def)

lemma wildcard_lower_char: "wildcard (lower_char c) \<longleftrightarrow> wildcard c"
proof -
  have w: "wildcard d \<longleftrightarrow> (of_char d :: nat) \<in> {37, 95, 92}" for d
  proof -
    have "d = e \<longleftrightarrow> (of_char d :: nat) = of_char e" for e by simp
    from this [of "CHR ''%''"] this [of "CHR ''_''"] this [of "CHR 0x5C"]
    show ?thesis unfolding wildcard_def by simp
  qed
  show ?thesis unfolding w of_char_lower_char by auto
qed

lemma iLike_contains:
  assumes "\<forall>c \<in> set query. \<not> wildcard c"
  shows "iLike txt (''%'' @ query @ ''%'') \<longleftrightarrow> containsIgnoreCase query txt"
proof -
  have "\<forall>c \<in> set (map lower_char query). \<not> wildcard c"
    using assms by (simp add: wildcard_lower_char)
  from like_match_contains [OF this, of "map lower_char txt"] show ?thesis
    by (simp add: iLike_def containsIgnoreCase_def lower_char_def)
qed

lemma listBookingsForUser_contains:
  assumes "\<forall>c \<in> set query. \<not> wildcard c"
  shows "booking_id ` set (fst (listBookingsForUser query None now st)) =
         booking_id ` {b \<in> set (bookings st). containsIgnoreCase query (userName b)}"
  by (simp add: listBookingsForUser_def refreshAll_rows iLike_contains [OF assms, simplified]
      image_image refreshStatus_row(1))

text \<open>
  C10. Listing matches the user name as a pattern: the query \<open>b_b\<close> returns the booking
  of \<open>Bob\<close>, in whose name it does not occur.
\<close>

theorem listBookingsForUser_pattern:
  "listBookingsForUser ''b_b'' None now store_booked = ([bookingGone], store_booked) \<and>
   userName bookingGone = ''Bob'' \<and> \<not> containsIgnoreCase ''b_b'' ''Bob''"
proof -
  have m: "\<not> iLike ''Test User'' ''%b_b%''" "\<not> iLike ''Ann'' ''%b_b%''" "iLike ''Bob'' ''%b_b%''"
    by code_simp+
  have "listBookingsForUser ''b_b'' None now store_booked = ([bookingGone], store_booked)"
    by (simp add: listBookingsForUser_def m store_booked_def
        bookingTest_def bookingDone_def bookingGone_def refreshStatus_def)
  moreover have "\<not> containsIgnoreCase ''b_b'' ''Bob''"
    by code_simp
  ultimately show ?thesis by (simp add: bookingGone_def)
qed


subsection \<open>The invariant of the store\<close>

text \<open>Every handler keeps the store well formed, starting from the seeded database:
  the hypotheses on stored bookings above hold of every store the handlers reach.\<close>

lemma update_status_wf: "store_wf st \<Longrightarrow> store_wf (Booking_update_status k s st)"
  unfolding store_wf_def ids_update_status
  by (auto simp: Booking_update_status_def)

lemma refreshStatus_wf: "store_wf st \<Longrightarrow> store_wf (snd (refreshStatus now r st))"
  by (simp add: refreshStatus_def Let_def update_status_wf)

lemma refreshAll_wf: "store_wf st \<Longrightarrow> store_wf (snd (refreshAll now rows st))"
  by (induction rows arbitrary: st) (simp_all add: split_beta refreshStatus_wf)

lemma store_wf_preserved:
  assumes "store_wf st"
  shows "store_wf (snd (createBooking z un uid s e now st))"
    and "store_wf (snd (cancelBooking k st))"
    and "store_wf (snd (getBooking k now st))"
    and "store_wf (snd (listBookingsForUser name f now st))"
proof -
  show "store_wf (snd (createBooking z un uid s e now st))"
    using assms
    by (auto simp: createBooking_def Booking_create_def Booking_validate_def Let_def store_wf_def
        less_Suc_eq split: option.splits)
  show "store_wf (snd (cancelBooking k st))"
    using assms by (auto simp: cancelBooking_def update_status_wf split: option.splits)
  show "store_wf (snd (getBooking k now st))"
    using assms by (auto simp: getBooking_def Let_def update_status_wf split: option.splits)
  show "store_wf (snd (listBookingsForUser name f now st))"
    using assms by (simp add: listBookingsForUser_def refreshAll_wf)
qed

lemma store_wf_seed: "store_wf store_seed"
  by (simp add: store_wf_def store_seed_def)


end
